theory Spec2Isabelle
  imports Main "HOL-Library.Multiset" "HOL-Library.Log_Nat"
begin

section \<open>The rule engine of \<^verbatim>\<open>Lab.py\<close>\<close>

text \<open>
  The core of \<^verbatim>\<open>Lab.py\<close> is two functions: \<^verbatim>\<open>evaluate_rule(rule, facts)\<close>
  (lines 24 to 51) and \<^verbatim>\<open>run_rules(rules, facts)\<close> (lines 53 to 61), with the operator table
  \<^verbatim>\<open>OPERATORS\<close> (lines 15 to 22). Rules come from \<^verbatim>\<open>json.loads\<close>, so everything
  inside a rule is a JSON value; the facts are a dictionary from field names to numbers, strings
  or booleans. Every exception the Python can raise is a value \<open>Inl e\<close> of the model.
\<close>

subsection \<open>Values\<close>

text \<open>
  A Python \<^verbatim>\<open>float\<close> is an IEEE binary64 number. The engine only converts to floats and
  compares them, so a float is modelled by the number it denotes: a rational on the binary64
  grid, an infinity, or NaN (the two zeros compare equal and are both \<open>Fin 0\<close>).
\<close>

datatype pyfloat = Fin rat | PInf | NInf | NaN

datatype error = TypeError | KeyError | ValueError | OverflowError | AttributeError

text \<open>
  Strings are lists of characters, one \<open>char\<close> for each code point (so the code points below
  256). A JSON object is an association list in insertion order, with distinct keys.
\<close>

datatype json =
    JNull
  | JBool bool
  | JInt int
  | JFloat pyfloat
  | JStr string
  | JList "json list"
  | JDict "(string \<times> json) list"

datatype scalar = SBool bool | SInt int | SFloat pyfloat | SStr string

type_synonym facts = "string \<rightharpoonup> scalar"

subsection \<open>Conversion to float\<close>

definition pow2 :: "int \<Rightarrow> rat" where
  "pow2 e = (if 0 \<le> e then 2 ^ nat e else 1 / 2 ^ nat (- e))"

definition pow10 :: "int \<Rightarrow> rat" where
  "pow10 e = (if 0 \<le> e then 10 ^ nat e else 1 / 10 ^ nat (- e))"

text \<open>The exponent \<open>e\<close> with \<open>2 ^ e \<le> a < 2 ^ (e + 1)\<close>, for a positive rational \<open>a\<close>.\<close>

definition floor_log2 :: "rat \<Rightarrow> int" where
  "floor_log2 a =
     (let (p, q) = quotient_of a; d = bitlen p - bitlen q
      in if pow2 d \<le> a then d else d - 1)"

definition round_half_even :: "rat \<Rightarrow> int" where
  "round_half_even x =
     (let f = \<lfloor>x\<rfloor>; d = x - of_int f
      in if d < 1 / 2 then f
         else if 1 / 2 < d then f + 1
         else if even f then f else f + 1)"

text \<open>
  Rounding a rational to the nearest binary64 number, ties to even: 53 significant bits,
  the least exponent of a normal number is \<open>-1022\<close>, and a result of \<open>2 ^ 1024\<close> or more
  is an overflow, returned as an infinity.
\<close>

definition round_binary64 :: "rat \<Rightarrow> pyfloat" where
  "round_binary64 x =
     (if x = 0 then Fin 0
      else let a = \<bar>x\<bar>;
               e = max (floor_log2 a) (- 1022);
               u = pow2 (e - 52);
               r = of_int (round_half_even (a / u)) * u
           in if pow2 1024 \<le> r then (if 0 < x then PInf else NInf)
              else Fin (if 0 < x then r else - r))"

text \<open>\<^verbatim>\<open>float(n)\<close> for an \<^verbatim>\<open>int\<close>: correctly rounded, \<^verbatim>\<open>OverflowError\<close> when too large.\<close>

definition float_of_int :: "int \<Rightarrow> error + pyfloat" where
  "float_of_int n =
     (case round_binary64 (of_int n) of
        Fin q \<Rightarrow> Inr (Fin q)
      | _ \<Rightarrow> Inl OverflowError)"

text \<open>
  \<^verbatim>\<open>float(s)\<close> for a \<^verbatim>\<open>str\<close>: white space is stripped at both ends, an underscore
  may stand between two digits, then comes an optional sign and either \<^verbatim>\<open>inf\<close>,
  \<^verbatim>\<open>infinity\<close> or \<^verbatim>\<open>nan\<close> in any case, or a decimal number with an optional
  exponent. Anything else is a \<^verbatim>\<open>ValueError\<close>.
\<close>

definition is_space :: "char \<Rightarrow> bool" where
  "is_space c =
     (let n = (of_char c :: nat)
      in (9 \<le> n \<and> n \<le> 13) \<or> (28 \<le> n \<and> n \<le> 32) \<or> n = 133 \<or> n = 160)"

definition is_digit :: "char \<Rightarrow> bool" where
  "is_digit c = (let n = (of_char c :: nat) in 48 \<le> n \<and> n \<le> 57)"

definition digit_val :: "char \<Rightarrow> nat" where
  "digit_val c = of_char c - 48"

definition to_lower :: "char \<Rightarrow> char" where
  "to_lower c =
     (let n = (of_char c :: nat) in if 65 \<le> n \<and> n \<le> 90 then char_of (n + 32) else c)"

definition strip :: "string \<Rightarrow> string" where
  "strip s = rev (dropWhile is_space (rev (dropWhile is_space s)))"

fun drop_underscores :: "char \<Rightarrow> string \<Rightarrow> string option" where
  "drop_underscores prev [] = (if prev = CHR ''_'' then None else Some [])"
| "drop_underscores prev (c # cs) =
     (if c = CHR ''_'' then
        (if is_digit prev then drop_underscores c cs else None)
      else if prev = CHR ''_'' \<and> \<not> is_digit c then None
      else map_option (Cons c) (drop_underscores c cs))"

definition digits_val :: "string \<Rightarrow> nat" where
  "digits_val ds = foldl (\<lambda>a c. 10 * a + digit_val c) 0 ds"

definition parse_sign :: "string \<Rightarrow> bool \<times> string" where
  "parse_sign s =
     (case s of
        c # r \<Rightarrow> if c = CHR ''+'' then (False, r) else if c = CHR ''-'' then (True, r)
                 else (False, s)
      | [] \<Rightarrow> (False, s))"

definition parse_exponent :: "string \<Rightarrow> int option" where
  "parse_exponent s =
     (case s of
        [] \<Rightarrow> Some 0
      | c # t \<Rightarrow>
          if c = CHR ''e'' \<or> c = CHR ''E'' then
            (let (neg, t') = parse_sign t
             in if t' \<noteq> [] \<and> list_all is_digit t'
                then Some (if neg then - int (digits_val t') else int (digits_val t'))
                else None)
          else None)"

definition parse_number :: "string \<Rightarrow> rat option" where
  "parse_number s =
     (let ip = takeWhile is_digit s; r1 = dropWhile is_digit s;
          (fp, r2) = (case r1 of
                        c # t \<Rightarrow> if c = CHR ''.''
                                 then (takeWhile is_digit t, dropWhile is_digit t)
                                 else ([], r1)
                      | [] \<Rightarrow> ([], r1))
      in if ip @ fp = [] then None
         else (case parse_exponent r2 of
                 None \<Rightarrow> None
               | Some ex \<Rightarrow>
                   Some (of_nat (digits_val (ip @ fp)) * pow10 (ex - int (length fp)))))"

definition float_of_str :: "string \<Rightarrow> error + pyfloat" where
  "float_of_str s =
     (case drop_underscores (CHR 0x00) (strip s) of
        None \<Rightarrow> Inl ValueError
      | Some t \<Rightarrow>
          let (neg, body) = parse_sign t; low = map to_lower body
          in if low = ''inf'' \<or> low = ''infinity'' then Inr (if neg then NInf else PInf)
             else if low = ''nan'' then Inr NaN
             else (case parse_number body of
                     None \<Rightarrow> Inl ValueError
                   | Some q \<Rightarrow> Inr (round_binary64 (if neg then - q else q))))"

text \<open>\<^verbatim>\<open>float(x)\<close> on a fact's value and on a JSON value.\<close>

fun float_of_scalar :: "scalar \<Rightarrow> error + pyfloat" where
  "float_of_scalar (SBool b) = Inr (Fin (if b then 1 else 0))"
| "float_of_scalar (SInt n) = float_of_int n"
| "float_of_scalar (SFloat x) = Inr x"
| "float_of_scalar (SStr s) = float_of_str s"

fun float_of_json :: "json \<Rightarrow> error + pyfloat" where
  "float_of_json (JBool b) = Inr (Fin (if b then 1 else 0))"
| "float_of_json (JInt n) = float_of_int n"
| "float_of_json (JFloat x) = Inr x"
| "float_of_json (JStr s) = float_of_str s"
| "float_of_json JNull = Inl TypeError"
| "float_of_json (JList xs) = Inl TypeError"
| "float_of_json (JDict kvs) = Inl TypeError"

subsection \<open>Comparisons\<close>

datatype cmpop = Eq | Ne | Ge | Le | Gt | Lt

text \<open>The table \<^verbatim>\<open>OPERATORS\<close> of lines 15 to 22.\<close>

definition OPERATORS :: "string \<rightharpoonup> cmpop" where
  "OPERATORS =
     map_of [(''=='', Eq), (''!='', Ne), (''>='', Ge), (''<='', Le), (''>'', Gt), (''<'', Lt)]"

text \<open>
  \<^verbatim>\<open>OPERATORS[op]\<close>: a list or a dictionary is unhashable (\<^verbatim>\<open>TypeError\<close>), any
  other value that is not a key of the table is a \<^verbatim>\<open>KeyError\<close>.
\<close>

fun lookup_operator :: "json \<Rightarrow> error + cmpop" where
  "lookup_operator (JStr s) = (case OPERATORS s of None \<Rightarrow> Inl KeyError | Some f \<Rightarrow> Inr f)"
| "lookup_operator (JList xs) = Inl TypeError"
| "lookup_operator (JDict kvs) = Inl TypeError"
| "lookup_operator v = Inl KeyError"

text \<open>Comparing two floats: every ordered comparison with NaN is false, NaN equals nothing.\<close>

fun float_lt :: "pyfloat \<Rightarrow> pyfloat \<Rightarrow> bool" where
  "float_lt NaN y = False"
| "float_lt x NaN = False"
| "float_lt (Fin a) (Fin b) = (a < b)"
| "float_lt (Fin a) PInf = True"
| "float_lt (Fin a) NInf = False"
| "float_lt NInf (Fin b) = True"
| "float_lt NInf PInf = True"
| "float_lt NInf NInf = False"
| "float_lt PInf y = False"

fun float_eq :: "pyfloat \<Rightarrow> pyfloat \<Rightarrow> bool" where
  "float_eq NaN y = False"
| "float_eq x NaN = False"
| "float_eq x y = (x = y)"

fun float_cmp :: "cmpop \<Rightarrow> pyfloat \<Rightarrow> pyfloat \<Rightarrow> bool" where
  "float_cmp Eq x y = float_eq x y"
| "float_cmp Ne x y = (\<not> float_eq x y)"
| "float_cmp Ge x y = (float_lt y x \<or> float_eq x y)"
| "float_cmp Le x y = (float_lt x y \<or> float_eq x y)"
| "float_cmp Gt x y = float_lt y x"
| "float_cmp Lt x y = float_lt x y"

text \<open>Strings are ordered lexicographically by code point.\<close>

fun str_lt :: "string \<Rightarrow> string \<Rightarrow> bool" where
  "str_lt [] [] = False"
| "str_lt [] (y # ys) = True"
| "str_lt (x # xs) [] = False"
| "str_lt (x # xs) (y # ys) =
     (if (of_char x :: nat) < of_char y then True
      else if (of_char x :: nat) = of_char y then str_lt xs ys
      else False)"

fun str_cmp :: "cmpop \<Rightarrow> string \<Rightarrow> string \<Rightarrow> bool" where
  "str_cmp Eq s t = (s = t)"
| "str_cmp Ne s t = (s \<noteq> t)"
| "str_cmp Ge s t = (str_lt t s \<or> s = t)"
| "str_cmp Le s t = (str_lt s t \<or> s = t)"
| "str_cmp Gt s t = str_lt t s"
| "str_cmp Lt s t = str_lt s t"

text \<open>
  Python compares \<^verbatim>\<open>bool\<close>, \<^verbatim>\<open>int\<close> and \<^verbatim>\<open>float\<close> with one another by their exact
  values, without rounding the integer: the exact value of a number, with an integer taken
  as it is.
\<close>

fun exact_of_scalar :: "scalar \<Rightarrow> pyfloat option" where
  "exact_of_scalar (SBool b) = Some (Fin (if b then 1 else 0))"
| "exact_of_scalar (SInt n) = Some (Fin (of_int n))"
| "exact_of_scalar (SFloat x) = Some x"
| "exact_of_scalar (SStr s) = None"

fun exact_of_json :: "json \<Rightarrow> pyfloat option" where
  "exact_of_json (JBool b) = Some (Fin (if b then 1 else 0))"
| "exact_of_json (JInt n) = Some (Fin (of_int n))"
| "exact_of_json (JFloat x) = Some x"
| "exact_of_json v = None"

text \<open>
  Between values of unrelated types \<^verbatim>\<open>==\<close> is false and \<^verbatim>\<open>!=\<close> is true, and the four
  ordered comparisons raise \<^verbatim>\<open>TypeError\<close>.
\<close>

fun mismatch :: "cmpop \<Rightarrow> error + bool" where
  "mismatch Eq = Inr False"
| "mismatch Ne = Inr True"
| "mismatch f = Inl TypeError"

text \<open>\<^verbatim>\<open>f(left, value)\<close> for an operator \<open>f\<close> of the table, on the values as they are.\<close>

definition py_compare :: "cmpop \<Rightarrow> scalar \<Rightarrow> json \<Rightarrow> error + bool" where
  "py_compare f left v =
     (case (exact_of_scalar left, exact_of_json v) of
        (Some a, Some b) \<Rightarrow> Inr (float_cmp f a b)
      | _ \<Rightarrow> (case (left, v) of
                (SStr s, JStr t) \<Rightarrow> Inr (str_cmp f s t)
              | _ \<Rightarrow> mismatch f))"

subsection \<open>One condition\<close>

text \<open>\<^verbatim>\<open>isinstance(x, (int, float))\<close>; a \<^verbatim>\<open>bool\<close> is an \<^verbatim>\<open>int\<close> in Python.\<close>

fun is_number_json :: "json \<Rightarrow> bool" where
  "is_number_json (JBool b) = True"
| "is_number_json (JInt n) = True"
| "is_number_json (JFloat x) = True"
| "is_number_json v = False"

fun is_number_scalar :: "scalar \<Rightarrow> bool" where
  "is_number_scalar (SStr s) = False"
| "is_number_scalar v = True"

text \<open>\<^verbatim>\<open>len(cond)\<close>: only lists, strings and dictionaries have a length.\<close>

fun py_len :: "json \<Rightarrow> error + nat" where
  "py_len (JList xs) = Inr (length xs)"
| "py_len (JStr s) = Inr (length s)"
| "py_len (JDict kvs) = Inr (length kvs)"
| "py_len v = Inl TypeError"

text \<open>
  Iterating a value, as the \<^verbatim>\<open>for\<close> loop and the unpacking
  \<^verbatim>\<open>field, op, value = cond\<close> do: a list gives its elements, a string its characters
  as strings of length one, a dictionary its keys.
\<close>

fun py_iter :: "json \<Rightarrow> error + json list" where
  "py_iter (JList xs) = Inr xs"
| "py_iter (JStr s) = Inr (map (\<lambda>c. JStr [c]) s)"
| "py_iter (JDict kvs) = Inr (map (\<lambda>kv. JStr (fst kv)) kvs)"
| "py_iter v = Inl TypeError"

definition unpack3 :: "json \<Rightarrow> error + (json \<times> json \<times> json)" where
  "unpack3 cond =
     (case py_iter cond of
        Inl e \<Rightarrow> Inl e
      | Inr [a, b, c] \<Rightarrow> Inr (a, b, c)
      | Inr _ \<Rightarrow> Inl ValueError)"

text \<open>
  \<^verbatim>\<open>field in facts\<close> and \<^verbatim>\<open>facts[field]\<close>. The keys of the facts are strings, so
  only a string can be found; a list or a dictionary cannot be hashed.
\<close>

fun contains :: "facts \<Rightarrow> json \<Rightarrow> error + bool" where
  "contains facts (JStr s) = Inr (facts s \<noteq> None)"
| "contains facts (JList xs) = Inl TypeError"
| "contains facts (JDict kvs) = Inl TypeError"
| "contains facts v = Inr False"

fun getitem :: "facts \<Rightarrow> json \<Rightarrow> error + scalar" where
  "getitem facts (JStr s) = (case facts s of None \<Rightarrow> Inl KeyError | Some x \<Rightarrow> Inr x)"
| "getitem facts (JList xs) = Inl TypeError"
| "getitem facts (JDict kvs) = Inl TypeError"
| "getitem facts v = Inl KeyError"

text \<open>The inner \<^verbatim>\<open>try\<close> of lines 38 to 44: both sides as floats, then the operator.\<close>

definition numeric_compare :: "json \<Rightarrow> scalar \<Rightarrow> json \<Rightarrow> error + bool" where
  "numeric_compare op left v =
     (case float_of_scalar left of
        Inl e \<Rightarrow> Inl e
      | Inr left_num \<Rightarrow>
          (case float_of_json v of
             Inl e \<Rightarrow> Inl e
           | Inr right_num \<Rightarrow>
               (case lookup_operator op of
                  Inl e \<Rightarrow> Inl e
                | Inr f \<Rightarrow> Inr (float_cmp f left_num right_num))))"

text \<open>Line 47: the operator on the values as they are.\<close>

definition direct_compare :: "json \<Rightarrow> scalar \<Rightarrow> json \<Rightarrow> error + bool" where
  "direct_compare op left v =
     (case lookup_operator op of Inl e \<Rightarrow> Inl e | Inr f \<Rightarrow> py_compare f left v)"

text \<open>
  The body of the outer \<^verbatim>\<open>try\<close>, lines 34 to 48. An exception of the inner \<^verbatim>\<open>try\<close>
  is swallowed (\<^verbatim>\<open>pass\<close>) and control falls through to line 47.
\<close>

definition try_body :: "facts \<Rightarrow> json \<Rightarrow> json \<Rightarrow> json \<Rightarrow> error + bool" where
  "try_body facts field op v =
     (case getitem facts field of
        Inl e \<Rightarrow> Inl e
      | Inr left \<Rightarrow>
          if is_number_json v \<or> is_number_scalar left then
            (case numeric_compare op left v of
               Inr b \<Rightarrow> Inr b
             | Inl e \<Rightarrow> direct_compare op left v)
          else direct_compare op left v)"

text \<open>
  One round of the loop of \<^verbatim>\<open>evaluate_rule\<close>, lines 27 to 50: \<open>Inr False\<close> is
  \<^verbatim>\<open>return False\<close>, \<open>Inr True\<close> goes on to the next condition, \<open>Inl e\<close> is an exception that
  leaves the function. Lines 27 and 31 are outside the \<^verbatim>\<open>try\<close>.
\<close>

definition satisfies :: "json \<Rightarrow> facts \<Rightarrow> error + bool" where
  "satisfies cond facts =
     (case py_len cond of
        Inl e \<Rightarrow> Inl e
      | Inr n \<Rightarrow>
          if n \<noteq> 3 then Inr False
          else (case unpack3 cond of
                  Inl e \<Rightarrow> Inl e
                | Inr (field, op, v) \<Rightarrow>
                    (case contains facts field of
                       Inl e \<Rightarrow> Inl e
                     | Inr False \<Rightarrow> Inr False
                     | Inr True \<Rightarrow>
                         (case try_body facts field op v of
                            Inl e \<Rightarrow> Inr False
                          | Inr b \<Rightarrow> Inr b))))"

subsection \<open>Rules\<close>

text \<open>
  A rule is a JSON object that the engine reads through \<^verbatim>\<open>rule.get("priority", 0)\<close> and
  \<^verbatim>\<open>rule.get("conditions", [])\<close> only; \<open>None\<close> is an absent key. The priority is an
  integer; the conditions, the name and the action are any JSON value.
\<close>

record rule =
  name :: "json option"
  priority :: "int option"
  conditions :: "json option"
  action :: "json option"

definition get_conditions :: "rule \<Rightarrow> json" where
  "get_conditions r = (case conditions r of None \<Rightarrow> JList [] | Some c \<Rightarrow> c)"

definition get_priority :: "rule \<Rightarrow> int" where
  "get_priority r = (case priority r of None \<Rightarrow> 0 | Some p \<Rightarrow> p)"

text \<open>The loop of lines 26 to 51 over the conditions still to be checked.\<close>

fun all_conditions :: "json list \<Rightarrow> facts \<Rightarrow> error + bool" where
  "all_conditions [] facts = Inr True"
| "all_conditions (cond # conds) facts =
     (case satisfies cond facts of
        Inl e \<Rightarrow> Inl e
      | Inr False \<Rightarrow> Inr False
      | Inr True \<Rightarrow> all_conditions conds facts)"

definition evaluate_rule :: "rule \<Rightarrow> facts \<Rightarrow> error + bool" where
  "evaluate_rule r facts =
     (case py_iter (get_conditions r) of
        Inl e \<Rightarrow> Inl e
      | Inr conds \<Rightarrow> all_conditions conds facts)"

text \<open>
  Line 56: \<^verbatim>\<open>sorted(rules, key=..., reverse=True)\<close>. Python sorts stably, and with
  \<^verbatim>\<open>reverse=True\<close> it reverses the list, sorts it stably in ascending order and reverses
  it again.
\<close>

definition sorted_rules :: "rule list \<Rightarrow> rule list" where
  "sorted_rules rules = rev (sort_key get_priority (rev rules))"

text \<open>The loop of lines 58 to 60, with the list \<^verbatim>\<open>matched\<close> built so far.\<close>

fun match_loop :: "rule list \<Rightarrow> facts \<Rightarrow> rule list \<Rightarrow> error + rule list" where
  "match_loop [] facts matched = Inr matched"
| "match_loop (r # rs) facts matched =
     (case evaluate_rule r facts of
        Inl e \<Rightarrow> Inl e
      | Inr b \<Rightarrow> match_loop rs facts (if b then matched @ [r] else matched))"

definition run_rules :: "rule list \<Rightarrow> facts \<Rightarrow> error + rule list" where
  "run_rules rules facts = match_loop (sorted_rules rules) facts []"

subsection \<open>Conditions that can be evaluated\<close>




subsection \<open>The same functions on a store of objects\<close>

text \<open>
  Python passes lists and dictionaries by reference. To say what \<^verbatim>\<open>run_rules\<close> writes, the
  objects live in a store: an address is an index into the list of all objects, a list object
  holds the addresses of its elements, and a new object is put at the end of the store.
  \<^verbatim>\<open>sorted\<close> builds a new list, \<^verbatim>\<open>matched = []\<close> is a new list, and
  \<^verbatim>\<open>matched.append(r)\<close> is the only write; \<^verbatim>\<open>evaluate_rule\<close> has no assignment
  to anything but its local variables.
\<close>

type_synonym addr = nat

datatype obj = ORule rule | OList "addr list" | OFacts facts

type_synonym store = "obj list"

definition lookup :: "store \<Rightarrow> addr \<Rightarrow> obj option" where
  "lookup h a = (if a < length h then Some (h ! a) else None)"

definition alloc :: "store \<Rightarrow> obj \<Rightarrow> addr \<times> store" where
  "alloc h ob = (length h, h @ [ob])"

definition rule_at :: "store \<Rightarrow> addr \<Rightarrow> rule option" where
  "rule_at h a = (case lookup h a of Some (ORule r) \<Rightarrow> Some r | _ \<Rightarrow> None)"

definition priority_at :: "store \<Rightarrow> addr \<Rightarrow> int" where
  "priority_at h a = (case rule_at h a of Some r \<Rightarrow> get_priority r | None \<Rightarrow> 0)"

text \<open>\<^verbatim>\<open>matched.append(r)\<close>: the list object at \<open>m\<close> gets one more address.\<close>

definition append_at :: "store \<Rightarrow> addr \<Rightarrow> addr \<Rightarrow> store" where
  "append_at h m r =
     (case lookup h m of Some (OList xs) \<Rightarrow> h[m := OList (xs @ [r])] | _ \<Rightarrow> h)"

text \<open>\<^verbatim>\<open>evaluate_rule(r, facts)\<close> on the objects at two addresses; it only reads them.\<close>

definition evaluate_rule_at :: "store \<Rightarrow> addr \<Rightarrow> addr \<Rightarrow> error + bool" where
  "evaluate_rule_at h r fa =
     (case rule_at h r of
        None \<Rightarrow> Inl AttributeError
      | Some rule \<Rightarrow>
          (case lookup h fa of
             Some (OFacts facts) \<Rightarrow> evaluate_rule rule facts
           | _ \<Rightarrow> Inl TypeError))"

fun match_loop_at :: "store \<Rightarrow> addr list \<Rightarrow> addr \<Rightarrow> addr \<Rightarrow> (error + addr) \<times> store" where
  "match_loop_at h [] fa m = (Inr m, h)"
| "match_loop_at h (r # rs) fa m =
     (case evaluate_rule_at h r fa of
        Inl e \<Rightarrow> (Inl e, h)
      | Inr b \<Rightarrow> match_loop_at (if b then append_at h m r else h) rs fa m)"

definition run_rules_at :: "store \<Rightarrow> addr \<Rightarrow> addr \<Rightarrow> (error + addr) \<times> store" where
  "run_rules_at h ra fa =
     (case lookup h ra of
        Some (OList as) \<Rightarrow>
          if list_all (\<lambda>a. rule_at h a \<noteq> None) as then
            (let (s, h1) = alloc h (OList (rev (sort_key (priority_at h) (rev as))));
                 (m, h2) = alloc h1 (OList [])
             in case lookup h2 s of
                  Some (OList sorted_as) \<Rightarrow> match_loop_at h2 sorted_as fa m
                | _ \<Rightarrow> (Inl TypeError, h2))
          else (Inl AttributeError, h)
      | _ \<Rightarrow> (Inl TypeError, h))"

subsection \<open>The rules and facts of the examples\<close>

definition rule_R1 :: rule where
  "rule_R1 =
     \<lparr>name = Some (JStr ''R1''), priority = Some 10,
      conditions = Some (JList
        [JList [JStr ''cgpa'', JStr ''>='', JFloat (round_binary64 (7 / 2))],
         JList [JStr ''family_income'', JStr ''<='', JInt 3000]]),
      action = Some (JDict
        [(''decision'', JStr ''AWARD''), (''reason'', JStr ''high merit, low income'')])\<rparr>"

definition facts_R1 :: facts where
  "facts_R1 =
     [''cgpa'' \<mapsto> SFloat (round_binary64 (19 / 5)), ''family_income'' \<mapsto> SInt 2000]"

text \<open>\<^verbatim>\<open>r.get("action", {}).get("decision")\<close>, as line 106 reads the decision of a match.\<close>

definition decision :: "rule \<Rightarrow> json option" where
  "decision r =
     (case action r of
        None \<Rightarrow> None
      | Some (JDict kvs) \<Rightarrow> map_of kvs ''decision''
      | Some v \<Rightarrow> None)"

definition rule_A :: rule where
  "rule_A = \<lparr>name = Some (JStr ''A''), priority = Some 1, conditions = None, action = None\<rparr>"

definition rule_B :: rule where
  "rule_B = \<lparr>name = Some (JStr ''B''), priority = Some 5, conditions = None, action = None\<rparr>"

definition rule_C :: rule where
  "rule_C = \<lparr>name = Some (JStr ''C''), priority = Some 5, conditions = None, action = None\<rparr>"


text \<open>A store with the rules A and B, the list of both, and empty facts.\<close>

definition store_AB :: store where
  "store_AB = [ORule rule_A, ORule rule_B, OList [0, 1], OFacts Map.empty]"

section \<open>Properties\<close>

subsection \<open>The two loops\<close>

lemma all_conditions_True_iff:
  "all_conditions conds facts = Inr True \<longleftrightarrow> (\<forall>c \<in> set conds. satisfies c facts = Inr True)"
  by (induction conds) (auto split: sum.splits bool.splits)

lemma evaluate_rule_True_iff:
  "evaluate_rule r facts = Inr True \<longleftrightarrow>
     (\<exists>conds. py_iter (get_conditions r) = Inr conds \<and>
        (\<forall>c \<in> set conds. satisfies c facts = Inr True))"
  by (auto simp: evaluate_rule_def all_conditions_True_iff split: sum.splits)

lemma match_loop_result:
  "match_loop rs facts matched = Inr ms \<Longrightarrow>
     ms = matched @ filter (\<lambda>r. evaluate_rule r facts = Inr True) rs"
proof (induction rs arbitrary: matched)
  case Nil
  then show ?case by simp
next
  case (Cons r rs)
  show ?case
  proof (cases "evaluate_rule r facts")
    case (Inl e)
    with Cons.prems show ?thesis by simp
  next
    case (Inr b)
    with Cons.prems
    have "match_loop rs facts (if b then matched @ [r] else matched) = Inr ms" by simp
    from Cons.IH [OF this] Inr show ?thesis by (cases b) simp_all
  qed
qed


lemma run_rules_result:
  "run_rules rules facts = Inr ms \<Longrightarrow>
     ms = filter (\<lambda>r. evaluate_rule r facts = Inr True) (sorted_rules rules)"
  using match_loop_result [of "sorted_rules rules" facts "[]" ms] by (simp add: run_rules_def)

subsection \<open>The sort\<close>

lemma mset_sorted_rules: "mset (sorted_rules rules) = mset rules"
  by (simp add: sorted_rules_def)

lemma set_sorted_rules: "set (sorted_rules rules) = set rules"
  by (simp add: sorted_rules_def)

lemma sorted_rules_descending:
  "sorted_wrt (\<lambda>a b. get_priority b \<le> get_priority a) (sorted_rules rules)"
proof -
  have "sorted (map get_priority (sort_key get_priority (rev rules)))"
    by (rule sorted_sort_key)
  then have "sorted_wrt (\<lambda>a b. get_priority a \<le> get_priority b)
      (sort_key get_priority (rev rules))"
    by (simp add: sorted_map)
  then show ?thesis
    by (simp add: sorted_rules_def sorted_wrt_rev)
qed

lemma sorted_rules_stable:
  "filter (\<lambda>r. get_priority r = k) (sorted_rules rules) =
   filter (\<lambda>r. get_priority r = k) rules"
  by (simp add: sorted_rules_def sort_key_stable flip: rev_filter)

subsection \<open>Conditions that return a boolean\<close>



lemma satisfies_triple:
  "satisfies (JList [f, op, v]) facts =
     (case contains facts f of
        Inl e \<Rightarrow> Inl e
      | Inr False \<Rightarrow> Inr False
      | Inr True \<Rightarrow> (case try_body facts f op v of Inl e \<Rightarrow> Inr False | Inr b \<Rightarrow> Inr b))"
  by (simp add: satisfies_def unpack3_def)








subsection \<open>Evaluating conversions and comparisons\<close>

lemma bitlen_numeral:
  "bitlen 1 = 1"
  "bitlen (numeral (Num.Bit0 n)) = bitlen (numeral n) + 1"
  "bitlen (numeral (Num.Bit1 n)) = bitlen (numeral n) + 1"
  by (subst compute_bitlen, simp)+

lemmas float_defs =
  float_of_int_def round_binary64_def floor_log2_def pow2_def pow10_def round_half_even_def
  Let_def bitlen_numeral


lemma float_of_int_1: "float_of_int 1 = Inr (Fin 1)"
  by (simp add: float_defs)


lemma float_of_int_2000: "float_of_int 2000 = Inr (Fin 2000)"
  by (simp add: float_defs)

lemma float_of_int_3000: "float_of_int 3000 = Inr (Fin 3000)"
  by (simp add: float_defs)



lemma round_3_8: "round_binary64 (19 / 5) = Fin (4278419646001971 / 1125899906842624)"
  by code_simp

lemma round_3_5: "round_binary64 (7 / 2) = Fin (7 / 2)"
  by code_simp

lemma satisfies_numeric:
  assumes "facts k = Some left" and "OPERATORS s = Some f"
    and "is_number_json v \<or> is_number_scalar left"
    and "float_of_scalar left = Inr l" and "float_of_json v = Inr r"
  shows "satisfies (JList [JStr k, JStr s, v]) facts = Inr (float_cmp f l r)"
  using assms by (auto simp: satisfies_triple try_body_def numeric_compare_def)



subsection \<open>The store\<close>

lemma length_append_at: "length (append_at h m r) = length h"
  by (simp add: append_at_def split: option.splits obj.splits)

lemma nth_append_at: "a \<noteq> m \<Longrightarrow> append_at h m r ! a = h ! a"
  by (simp add: append_at_def split: option.splits obj.splits)

lemma lookup_append_at_other: "a \<noteq> m \<Longrightarrow> lookup (append_at h m r) a = lookup h a"
  by (simp add: lookup_def length_append_at nth_append_at)

lemma lookup_append_at_same:
  "lookup h m = Some (OList acc) \<Longrightarrow> lookup (append_at h m r) m = Some (OList (acc @ [r]))"
  by (auto simp: lookup_def append_at_def split: if_splits)

lemma match_loop_at_frame:
  "length (snd (match_loop_at h rs fa m)) = length h \<and>
   (\<forall>a. a \<noteq> m \<longrightarrow> snd (match_loop_at h rs fa m) ! a = h ! a)"
proof (induction rs arbitrary: h)
  case Nil
  then show ?case by simp
next
  case (Cons r rs)
  show ?case
  proof (cases "evaluate_rule_at h r fa")
    case (Inl e)
    then show ?thesis by simp
  next
    case (Inr b)
    then show ?thesis
      using Cons.IH [of "if b then append_at h m r else h"]
      by (simp add: length_append_at nth_append_at)
  qed
qed

lemma run_rules_at_frame: "take (length h) (snd (run_rules_at h ra fa)) = h"
proof -
  have *: "take (length h) (snd (match_loop_at (h @ [x, y]) rs fa (Suc (length h)))) = h"
    for x y rs
  proof (rule nth_equalityI)
    show "length (take (length h) (snd (match_loop_at (h @ [x, y]) rs fa (Suc (length h)))))
        = length h"
      using match_loop_at_frame [of "h @ [x, y]" rs fa "Suc (length h)"] by simp
    fix i assume "i < length (take (length h)
        (snd (match_loop_at (h @ [x, y]) rs fa (Suc (length h)))))"
    then have i: "i < length h" by simp
    then show "take (length h) (snd (match_loop_at (h @ [x, y]) rs fa (Suc (length h)))) ! i
        = h ! i"
      using match_loop_at_frame [of "h @ [x, y]" rs fa "Suc (length h)"]
      by (simp add: nth_append)
  qed
  show ?thesis
    by (auto simp: run_rules_at_def alloc_def lookup_def nth_append *
        split: option.splits obj.splits)
qed


lemma map_insort_key:
  "\<forall>y \<in> set (x # xs). k y = f (g y) \<Longrightarrow>
     map g (insort_key k x xs) = insort_key f (g x) (map g xs)"
  by (induction xs) auto

lemma map_sort_key:
  "\<forall>y \<in> set xs. k y = f (g y) \<Longrightarrow> map g (sort_key k xs) = sort_key f (map g xs)"
proof (induction xs)
  case Nil
  then show ?case by simp
next
  case (Cons x xs)
  then have "map g (insort_key k x (sort_key k xs)) = insort_key f (g x) (map g (sort_key k xs))"
    by (intro map_insort_key) simp
  with Cons show ?case by simp
qed

lemma evaluate_rule_at_eq:
  "rule_at h r = Some rule \<Longrightarrow> lookup h fa = Some (OFacts facts) \<Longrightarrow>
     evaluate_rule_at h r fa = evaluate_rule rule facts"
  by (simp add: evaluate_rule_at_def)

lemma rule_at_append_at: "a \<noteq> m \<Longrightarrow> rule_at (append_at h m r) a = rule_at h a"
  by (simp add: rule_at_def lookup_append_at_other)

lemma match_loop_at_refines:
  assumes "lookup h m = Some (OList acc)" and "lookup h fa = Some (OFacts facts)"
    and "\<forall>a \<in> set rs. a \<noteq> m \<and> rule_at h a = Some (R a)"
  shows "case match_loop_at h rs fa m of
           (Inl e, h') \<Rightarrow> match_loop (map R rs) facts (map R acc) = Inl e
         | (Inr m', h') \<Rightarrow>
             m' = m \<and> (\<exists>ms. lookup h' m = Some (OList ms) \<and> set ms \<subseteq> set acc \<union> set rs \<and>
               match_loop (map R rs) facts (map R acc) = Inr (map R ms))"
  using assms
proof (induction rs arbitrary: h acc)
  case Nil
  then show ?case by simp
next
  case (Cons r rs)
  from Cons.prems have fa_m: "fa \<noteq> m" by auto
  from Cons.prems have ev: "evaluate_rule_at h r fa = evaluate_rule (R r) facts"
    by (simp add: evaluate_rule_at_eq)
  show ?case
  proof (cases "evaluate_rule (R r) facts")
    case (Inl e)
    with ev show ?thesis by simp
  next
    case (Inr b)
    let ?h = "if b then append_at h m r else h"
    let ?acc = "if b then acc @ [r] else acc"
    have 1: "lookup ?h m = Some (OList ?acc)"
      using Cons.prems(1) by (simp add: lookup_append_at_same)
    have 2: "lookup ?h fa = Some (OFacts facts)"
      using Cons.prems(2) fa_m by (simp add: lookup_append_at_other)
    have 3: "\<forall>a \<in> set rs. a \<noteq> m \<and> rule_at ?h a = Some (R a)"
      using Cons.prems(3) by (simp add: rule_at_append_at)
    have step: "match_loop_at h (r # rs) fa m = match_loop_at ?h rs fa m"
      using ev Inr by simp
    have pure: "match_loop (map R (r # rs)) facts (map R acc) =
        match_loop (map R rs) facts (map R ?acc)"
      using Inr by simp
    show ?thesis
      unfolding step pure
      using Cons.IH [OF 1 2 3]
      by (auto split: prod.splits sum.splits if_splits)
  qed
qed


lemma lookup_append_old: "lookup h a = Some ob \<Longrightarrow> lookup (h @ h') a = Some ob"
  by (auto simp: lookup_def nth_append split: if_splits)

lemma rule_at_append_old: "rule_at h a = Some r \<Longrightarrow> rule_at (h @ h') a = Some r"
  by (auto simp: rule_at_def lookup_def nth_append split: if_splits option.splits obj.splits)

lemma rule_at_less: "rule_at h a = Some r \<Longrightarrow> a < length h"
  by (auto simp: rule_at_def lookup_def split: if_splits)

lemma run_rules_at_refines:
  assumes ra: "lookup h ra = Some (OList as)" and fa: "lookup h fa = Some (OFacts facts)"
    and rules: "\<forall>a \<in> set as. rule_at h a = Some (R a)"
  shows "case run_rules_at h ra fa of
           (Inl e, h') \<Rightarrow> run_rules (map R as) facts = Inl e
         | (Inr m, h') \<Rightarrow>
             (\<exists>ms. lookup h' m = Some (OList ms) \<and> set ms \<subseteq> set as \<and>
                run_rules (map R as) facts = Inr (map R ms))"
proof -
  let ?srt = "rev (sort_key (priority_at h) (rev as))"
  let ?h2 = "h @ [OList ?srt, OList []]"
  let ?m = "Suc (length h)"
  have all: "list_all (\<lambda>a. rule_at h a \<noteq> None) as"
    using rules by (simp add: list_all_iff)
  have unfold: "run_rules_at h ra fa = match_loop_at ?h2 ?srt fa ?m"
    using ra all by (simp add: run_rules_at_def alloc_def lookup_def nth_append)
  have "\<forall>y \<in> set (rev as). priority_at h y = get_priority (R y)"
    using rules by (simp add: priority_at_def)
  then have "map R (sort_key (priority_at h) (rev as)) = sort_key get_priority (map R (rev as))"
    by (rule map_sort_key)
  then have "rev (map R (sort_key (priority_at h) (rev as))) =
      rev (sort_key get_priority (rev (map R as)))"
    by (simp only: rev_map)
  then have srt: "map R ?srt = sorted_rules (map R as)"
    by (simp only: sorted_rules_def rev_map)
  have 1: "lookup ?h2 ?m = Some (OList [])"
    by (simp add: lookup_def nth_append)
  have 2: "lookup ?h2 fa = Some (OFacts facts)"
    using fa by (rule lookup_append_old)
  have 3: "\<forall>a \<in> set ?srt. a \<noteq> ?m \<and> rule_at ?h2 a = Some (R a)"
  proof
    fix a assume "a \<in> set ?srt"
    then have "rule_at h a = Some (R a)" using rules by simp
    then show "a \<noteq> ?m \<and> rule_at ?h2 a = Some (R a)"
      using rule_at_less [of h a "R a"] by (simp add: rule_at_append_old)
  qed
  show ?thesis
    unfolding unfold run_rules_def
    using match_loop_at_refines [OF 1 2 3] srt
    by (auto split: prod.splits sum.splits)
qed

section \<open>The claims\<close>

text \<open>
  C4. When \<^verbatim>\<open>run_rules\<close> returns, a rule is in the result exactly when it is one of the
  given rules and every one of its conditions is satisfied by the facts. All rules are
  evaluated and every matching rule is returned, as often as it occurs in the input, so the
  result can hold several rules.
\<close>

theorem match_iff_all_conditions:
  "run_rules rules facts = Inr ms \<Longrightarrow>
     (r \<in> set ms \<longleftrightarrow>
        r \<in> set rules \<and>
        (\<exists>conds. py_iter (get_conditions r) = Inr conds \<and>
           (\<forall>c \<in> set conds. satisfies c facts = Inr True))) \<and>
     mset ms = filter_mset (\<lambda>r. evaluate_rule r facts = Inr True) (mset rules) \<and>
     length ms = length (filter (\<lambda>r. evaluate_rule r facts = Inr True) rules)"
proof -
  assume "run_rules rules facts = Inr ms"
  then have ms: "ms = filter (\<lambda>r. evaluate_rule r facts = Inr True) (sorted_rules rules)"
    by (rule run_rules_result)
  have m: "mset ms = filter_mset (\<lambda>r. evaluate_rule r facts = Inr True) (mset rules)"
    unfolding ms by (simp add: mset_sorted_rules)
  have "mset ms = mset (filter (\<lambda>r. evaluate_rule r facts = Inr True) rules)"
    using m by simp
  then have l: "length ms = length (filter (\<lambda>r. evaluate_rule r facts = Inr True) rules)"
    by (rule mset_eq_length)
  have "r \<in> set ms \<longleftrightarrow> r \<in> set rules \<and> evaluate_rule r facts = Inr True"
    unfolding ms by (simp add: set_sorted_rules)
  then show ?thesis using m l by (simp add: evaluate_rule_True_iff)
qed

theorem match_iff_all_conditions_witness:
  "run_rules [rule_A, rule_B, rule_C] Map.empty = Inr [rule_B, rule_C, rule_A] \<and>
   length [rule_B, rule_C, rule_A] =
     length (filter (\<lambda>r. evaluate_rule r Map.empty = Inr True) [rule_A, rule_B, rule_C])"
proof -
  have h: "run_rules [rule_A, rule_B, rule_C] Map.empty = Inr [rule_B, rule_C, rule_A]"
    by (simp add: run_rules_def sorted_rules_def evaluate_rule_def get_conditions_def
        get_priority_def rule_A_def rule_B_def rule_C_def)
  show ?thesis using h match_iff_all_conditions [OF h] by simp
qed

text \<open>
  C5. A rule whose list of conditions is empty matches any facts, and so does a rule with no
  \<^verbatim>\<open>conditions\<close> key, which is read as the empty list.
\<close>

theorem empty_conditions_match:
  "evaluate_rule (r\<lparr>conditions := Some (JList [])\<rparr>) facts = Inr True \<and>
   evaluate_rule (r\<lparr>conditions := None\<rparr>) facts = Inr True \<and>
   get_conditions (r\<lparr>conditions := None\<rparr>) = JList [] \<and>
   run_rules [r\<lparr>conditions := Some (JList [])\<rparr>] facts = Inr [r\<lparr>conditions := Some (JList [])\<rparr>] \<and>
   run_rules [r\<lparr>conditions := None\<rparr>] facts = Inr [r\<lparr>conditions := None\<rparr>]"
  by (simp add: evaluate_rule_def get_conditions_def run_rules_def sorted_rules_def)



text \<open>
  C10. Every element of the result of \<^verbatim>\<open>run_rules\<close> is one of the given rules, as it
  was given, and no rule occurs more often in the result than in the input: the result is a
  sub-multiset of the input.
\<close>

theorem output_is_sub_multiset:
  "run_rules rules facts = Inr ms \<Longrightarrow>
     mset ms \<subseteq># mset rules \<and> set ms \<subseteq> set rules \<and> (\<forall>r. count_list ms r \<le> count_list rules r)"
proof -
  assume "run_rules rules facts = Inr ms"
  then have ms: "ms = filter (\<lambda>r. evaluate_rule r facts = Inr True) (sorted_rules rules)"
    by (rule run_rules_result)
  have "mset ms \<subseteq># mset (sorted_rules rules)"
    unfolding ms by simp
  then have sub: "mset ms \<subseteq># mset rules" by (simp add: mset_sorted_rules)
  then have "\<forall>r. count (mset ms) r \<le> count (mset rules) r"
    by (simp add: mset_subset_eq_count)
  then have "\<forall>r. count_list ms r \<le> count_list rules r" by (simp add: count_mset)
  moreover from sub have "set ms \<subseteq> set rules" using set_mset_mono by fastforce
  ultimately show ?thesis using sub by simp
qed

theorem output_is_sub_multiset_witness:
  "run_rules [rule_A, rule_B] Map.empty = Inr [rule_B, rule_A] \<and>
   mset [rule_B, rule_A] \<subseteq># mset [rule_A, rule_B]"
proof -
  have h: "run_rules [rule_A, rule_B] Map.empty = Inr [rule_B, rule_A]"
    by (simp add: run_rules_def sorted_rules_def evaluate_rule_def get_conditions_def
        get_priority_def rule_A_def rule_B_def)
  show ?thesis using h output_is_sub_multiset [OF h] by simp
qed



text \<open>
  C7. For the facts \<^verbatim>\<open>{"cgpa": 3.8, "family_income": 2000}\<close> and the single rule R1
  with the conditions \<^verbatim>\<open>["cgpa", ">=", 3.5]\<close> and \<^verbatim>\<open>["family_income", "<=", 3000]\<close>,
  \<^verbatim>\<open>run_rules\<close> returns exactly R1, whose decision is \<^verbatim>\<open>"AWARD"\<close>.
\<close>

theorem end_to_end_award:
  "run_rules [rule_R1] facts_R1 = Inr [rule_R1] \<and> decision rule_R1 = Some (JStr ''AWARD'')"
proof -
  have c1: "satisfies (JList [JStr ''cgpa'', JStr ''>='', JFloat (round_binary64 (7 / 2))]) facts_R1
      = Inr True"
    by (simp add: satisfies_numeric [where left = "SFloat (round_binary64 (19 / 5))" and f = Ge]
        facts_R1_def OPERATORS_def round_3_8 round_3_5)
  have c2: "satisfies (JList [JStr ''family_income'', JStr ''<='', JInt 3000]) facts_R1 = Inr True"
    by (simp add: satisfies_numeric [where left = "SInt 2000" and f = Le]
        facts_R1_def OPERATORS_def float_of_int_2000 float_of_int_3000)
  have "evaluate_rule rule_R1 facts_R1 = Inr True"
    by (simp add: evaluate_rule_def get_conditions_def rule_R1_def c1 c2)
  then have "run_rules [rule_R1] facts_R1 = Inr [rule_R1]"
    by (simp add: run_rules_def sorted_rules_def)
  moreover have "decision rule_R1 = Some (JStr ''AWARD'')"
    by (simp add: decision_def rule_R1_def)
  ultimately show ?thesis by simp
qed

text \<open>
  C9. A boolean counts as a number in the test of line 36, and \<^verbatim>\<open>float\<close> turns
  \<^verbatim>\<open>True\<close> into 1.0 and \<^verbatim>\<open>False\<close> into 0.0: with a boolean on either side and the
  other side convertible, the result is the comparison of the floats. So
  \<^verbatim>\<open>["flag", "==", true]\<close> holds for the flag 1.0, and \<^verbatim>\<open>["flag", ">", false]\<close> for
  the flag 1.
\<close>

theorem booleans_are_numeric:
  "is_number_json (JBool b) \<and> is_number_scalar (SBool b) \<and>
   float_of_json (JBool b) = Inr (Fin (if b then 1 else 0)) \<and>
   float_of_scalar (SBool b) = Inr (Fin (if b then 1 else 0)) \<and>
   (facts k = Some left \<and> OPERATORS s = Some f \<and> float_of_scalar left = Inr l \<longrightarrow>
      satisfies (JList [JStr k, JStr s, JBool b]) facts =
        Inr (float_cmp f l (Fin (if b then 1 else 0)))) \<and>
   (facts k = Some (SBool b) \<and> OPERATORS s = Some f \<and> float_of_json v = Inr r \<longrightarrow>
      satisfies (JList [JStr k, JStr s, v]) facts =
        Inr (float_cmp f (Fin (if b then 1 else 0)) r)) \<and>
   satisfies (JList [JStr ''flag'', JStr ''=='', JBool True]) [''flag'' \<mapsto> SFloat (Fin 1)] =
     Inr True \<and>
   satisfies (JList [JStr ''flag'', JStr ''>'', JBool False]) [''flag'' \<mapsto> SInt 1] = Inr True"
proof (intro conjI impI)
  show "satisfies (JList [JStr k, JStr s, JBool b]) facts =
      Inr (float_cmp f l (Fin (if b then 1 else 0)))"
    if "facts k = Some left \<and> OPERATORS s = Some f \<and> float_of_scalar left = Inr l"
    using that satisfies_numeric [where v = "JBool b" and facts = facts and k = k and s = s
        and left = left and f = f and l = l and r = "Fin (if b then 1 else 0)"]
    by simp
  show "satisfies (JList [JStr k, JStr s, v]) facts =
      Inr (float_cmp f (Fin (if b then 1 else 0)) r)"
    if "facts k = Some (SBool b) \<and> OPERATORS s = Some f \<and> float_of_json v = Inr r"
    using that satisfies_numeric [where v = v and facts = facts and k = k and s = s
        and left = "SBool b" and f = f and r = r and l = "Fin (if b then 1 else 0)"]
    by simp
  show "satisfies (JList [JStr ''flag'', JStr ''=='', JBool True]) [''flag'' \<mapsto> SFloat (Fin 1)]
      = Inr True"
    by (simp add: satisfies_numeric [where left = "SFloat (Fin 1)" and f = Eq] OPERATORS_def)
  show "satisfies (JList [JStr ''flag'', JStr ''>'', JBool False]) [''flag'' \<mapsto> SInt 1]
      = Inr True"
    by (simp add: satisfies_numeric [where left = "SInt 1" and f = Gt] OPERATORS_def
        float_of_int_1)
qed simp_all

theorem booleans_are_numeric_witness:
  "[''flag'' \<mapsto> SInt 1] ''flag'' = Some (SInt 1) \<and> OPERATORS ''>'' = Some Gt \<and>
   float_of_scalar (SInt 1) = Inr (Fin 1) \<and>
   satisfies (JList [JStr ''flag'', JStr ''>'', JBool False]) [''flag'' \<mapsto> SInt 1] =
     Inr (float_cmp Gt (Fin 1) (Fin 0)) \<and>
   [''flag'' \<mapsto> SBool True] ''flag'' = Some (SBool True) \<and>
   float_of_json (JInt 1) = Inr (Fin 1) \<and>
   satisfies (JList [JStr ''flag'', JStr ''>'', JInt 1]) [''flag'' \<mapsto> SBool True] =
     Inr (float_cmp Gt (Fin 1) (Fin 1))"
proof -
  have a: "float_of_scalar (SInt 1) = Inr (Fin 1)" "float_of_json (JInt 1) = Inr (Fin 1)"
    "OPERATORS ''>'' = Some Gt"
    by (simp_all add: float_of_int_1 OPERATORS_def)
  show ?thesis
    using a
      booleans_are_numeric [where facts = "[''flag'' \<mapsto> SInt 1]" and k = "''flag''"
        and left = "SInt 1" and s = "''>''" and f = Gt and l = "Fin 1" and b = False]
      booleans_are_numeric [where facts = "[''flag'' \<mapsto> SBool True]" and k = "''flag''"
        and s = "''>''" and f = Gt and v = "JInt 1" and r = "Fin 1" and b = True]
    by simp
qed




text \<open>
  C3, as the claim states its example, fails: with C listed before A and also before B, the
  two rules of priority 5 keep their input order and the result is C, B, A.
\<close>

theorem tie_order_counterexample:
  "run_rules [rule_C, rule_B, rule_A] Map.empty = Inr [rule_C, rule_B, rule_A] \<and>
   [rule_C, rule_B, rule_A] \<noteq> [rule_B, rule_C, rule_A]"
  by (simp add: run_rules_def sorted_rules_def evaluate_rule_def get_conditions_def
      get_priority_def rule_A_def rule_B_def rule_C_def)

text \<open>
  C3, amended. \<^verbatim>\<open>run_rules\<close> sorts the rules by priority in descending order, a rule
  without priority counting as 0 and rules of equal priority keeping their input order, and
  its result is the matching rules of the sorted list in that order. For the rules A of
  priority 1 and B and C of priority 5, all matching, with B listed before C, the result is
  B, C, A.
\<close>

theorem sorted_then_filtered:
  "(priority r = None \<longrightarrow> get_priority r = 0) \<and>
   sorted_wrt (\<lambda>a b. get_priority b \<le> get_priority a) (sorted_rules rules) \<and>
   mset (sorted_rules rules) = mset rules \<and>
   (\<forall>k. filter (\<lambda>r. get_priority r = k) (sorted_rules rules) =
        filter (\<lambda>r. get_priority r = k) rules) \<and>
   (run_rules rules facts = Inr ms \<longrightarrow>
      ms = filter (\<lambda>r. evaluate_rule r facts = Inr True) (sorted_rules rules) \<and>
      sorted_wrt (\<lambda>a b. get_priority b \<le> get_priority a) ms) \<and>
   run_rules [rule_B, rule_C, rule_A] facts = Inr [rule_B, rule_C, rule_A] \<and>
   run_rules [rule_B, rule_A, rule_C] facts = Inr [rule_B, rule_C, rule_A] \<and>
   run_rules [rule_A, rule_B, rule_C] facts = Inr [rule_B, rule_C, rule_A]"
proof (intro conjI impI allI)
  show "get_priority r = 0" if "priority r = None"
    using that by (simp add: get_priority_def)
  show "sorted_wrt (\<lambda>a b. get_priority b \<le> get_priority a) (sorted_rules rules)"
    by (rule sorted_rules_descending)
  show "mset (sorted_rules rules) = mset rules"
    by (rule mset_sorted_rules)
  show "filter (\<lambda>r. get_priority r = k) (sorted_rules rules) =
      filter (\<lambda>r. get_priority r = k) rules" for k
    by (rule sorted_rules_stable)
  show "ms = filter (\<lambda>r. evaluate_rule r facts = Inr True) (sorted_rules rules)"
    if "run_rules rules facts = Inr ms"
    using that by (rule run_rules_result)
  show "sorted_wrt (\<lambda>a b. get_priority b \<le> get_priority a) ms"
    if "run_rules rules facts = Inr ms"
    using run_rules_result [OF that] sorted_rules_descending [of rules]
    by (simp add: sorted_wrt_filter)
  show "run_rules [rule_B, rule_C, rule_A] facts = Inr [rule_B, rule_C, rule_A]"
    by (simp add: run_rules_def sorted_rules_def evaluate_rule_def get_conditions_def
        get_priority_def rule_A_def rule_B_def rule_C_def)
  show "run_rules [rule_B, rule_A, rule_C] facts = Inr [rule_B, rule_C, rule_A]"
    by (simp add: run_rules_def sorted_rules_def evaluate_rule_def get_conditions_def
        get_priority_def rule_A_def rule_B_def rule_C_def)
  show "run_rules [rule_A, rule_B, rule_C] facts = Inr [rule_B, rule_C, rule_A]"
    by (simp add: run_rules_def sorted_rules_def evaluate_rule_def get_conditions_def
        get_priority_def rule_A_def rule_B_def rule_C_def)
qed

theorem sorted_then_filtered_witness:
  "priority (rule_A\<lparr>priority := None\<rparr>) = None \<and>
   get_priority (rule_A\<lparr>priority := None\<rparr>) = 0 \<and>
   run_rules [rule_B, rule_C, rule_A] Map.empty = Inr [rule_B, rule_C, rule_A] \<and>
   [rule_B, rule_C, rule_A] =
     filter (\<lambda>r. evaluate_rule r Map.empty = Inr True) (sorted_rules [rule_B, rule_C, rule_A]) \<and>
   sorted_wrt (\<lambda>a b. get_priority b \<le> get_priority a) [rule_B, rule_C, rule_A]"
proof -
  have h: "run_rules [rule_B, rule_C, rule_A] Map.empty = Inr [rule_B, rule_C, rule_A]"
    by (simp add: run_rules_def sorted_rules_def evaluate_rule_def get_conditions_def
        get_priority_def rule_A_def rule_B_def rule_C_def)
  show ?thesis
    using h sorted_then_filtered [where r = "rule_A\<lparr>priority := None\<rparr>"
        and rules = "[rule_B, rule_C, rule_A]" and facts = Map.empty
        and ms = "[rule_B, rule_C, rule_A]"]
    by simp
qed

text \<open>
  C8. \<^verbatim>\<open>run_rules\<close> changes no object that existed before the call: the store it leaves
  is the old store followed by the two new lists, whether it returns or raises; so the list of
  rules, every rule and the facts are as before, and nothing else is written. What it returns
  is what the function of the values computes from the list of rules and the facts
  alone, and the result list holds addresses of the given rules.
\<close>

theorem inputs_unchanged:
  "take (length h) (snd (run_rules_at h ra fa)) = h \<and>
   (lookup h ra = Some (OList as) \<and> lookup h fa = Some (OFacts facts) \<and>
    (\<forall>a \<in> set as. rule_at h a = Some (R a)) \<longrightarrow>
      (case run_rules_at h ra fa of
         (Inl e, h') \<Rightarrow> run_rules (map R as) facts = Inl e
       | (Inr m, h') \<Rightarrow>
           (\<exists>ms. lookup h' m = Some (OList ms) \<and> set ms \<subseteq> set as \<and>
              run_rules (map R as) facts = Inr (map R ms))))"
proof (intro conjI impI)
  show "take (length h) (snd (run_rules_at h ra fa)) = h"
    by (rule run_rules_at_frame)
  assume "lookup h ra = Some (OList as) \<and> lookup h fa = Some (OFacts facts) \<and>
    (\<forall>a \<in> set as. rule_at h a = Some (R a))"
  then have "lookup h ra = Some (OList as)" "lookup h fa = Some (OFacts facts)"
    "\<forall>a \<in> set as. rule_at h a = Some (R a)"
    by simp_all
  then show "case run_rules_at h ra fa of
      (Inl e, h') \<Rightarrow> run_rules (map R as) facts = Inl e
    | (Inr m, h') \<Rightarrow>
        (\<exists>ms. lookup h' m = Some (OList ms) \<and> set ms \<subseteq> set as \<and>
           run_rules (map R as) facts = Inr (map R ms))"
    by (rule run_rules_at_refines)
qed

theorem inputs_unchanged_witness:
  "lookup store_AB 2 = Some (OList [0, 1]) \<and>
   lookup store_AB 3 = Some (OFacts Map.empty) \<and>
   rule_at store_AB 0 = Some rule_A \<and> rule_at store_AB 1 = Some rule_B \<and>
   run_rules_at store_AB 2 3 = (Inr 5, store_AB @ [OList [1, 0], OList [1, 0]]) \<and>
   take (length store_AB) (store_AB @ [OList [1, 0], OList [1, 0]]) = store_AB \<and>
   run_rules [rule_A, rule_B] Map.empty = Inr [rule_B, rule_A]"
proof -
  have a: "lookup store_AB 2 = Some (OList [0, 1])" "lookup store_AB 3 = Some (OFacts Map.empty)"
    "rule_at store_AB 0 = Some rule_A" "rule_at store_AB 1 = Some rule_B"
    by (simp_all add: store_AB_def lookup_def rule_at_def)
  have b: "run_rules_at store_AB 2 3 = (Inr 5, store_AB @ [OList [1, 0], OList [1, 0]])"
    by (simp add: run_rules_at_def store_AB_def lookup_def rule_at_def alloc_def priority_at_def
        get_priority_def rule_A_def rule_B_def evaluate_rule_at_def evaluate_rule_def
        get_conditions_def append_at_def)
  have c: "run_rules [rule_A, rule_B] Map.empty = Inr [rule_B, rule_A]"
    by (simp add: run_rules_def sorted_rules_def evaluate_rule_def get_conditions_def
        get_priority_def rule_A_def rule_B_def)
  show ?thesis
    using a b c inputs_unchanged [where h = store_AB and ra = 2 and fa = 3 and as = "[0, 1]"
        and facts = Map.empty and R = "\<lambda>a. if a = 0 then rule_A else rule_B"]
    by simp
qed

end
